theory Spec2Isabelle
  imports Complex_Main
begin

section \<open>Arrays\<close>

text \<open>
  The module \<^verbatim>\<open>pyimof/util.py\<close> works on numpy arrays. An array is modelled as numpy
  stores it: its shape and its samples in row-major order. Samples are real numbers: the
  rounding of floating-point arithmetic, infinities and NaN are not modelled.
\<close>

record ndarray =
  shape :: "nat list"
  elems :: "real list"

definition ndim :: "ndarray \<Rightarrow> nat" where
  "ndim a = length (shape a)"

text \<open>numpy keeps as many samples as the shape asks for.\<close>

definition wf_array :: "ndarray \<Rightarrow> bool" where
  "wf_array a = (length (elems a) = prod_list (shape a))"

text \<open>\<^verbatim>\<open>np.full(s, c)\<close>, and \<^verbatim>\<open>np.zeros_like(a)\<close>.\<close>

definition full :: "nat list \<Rightarrow> real \<Rightarrow> ndarray" where
  "full s c = \<lparr>shape = s, elems = replicate (prod_list s) c\<rparr>"

definition zeros_like :: "ndarray \<Rightarrow> ndarray" where
  "zeros_like a = full (shape a) 0"

text \<open>
  Two-dimensional indexing: \<open>at2 a i j\<close> is \<^verbatim>\<open>a[i, j]\<close> for an array of shape
  \<open>[nl, nc]\<close>, and \<open>mk2 nl nc f\<close> is the array of that shape whose sample at \<open>(i, j)\<close>
  is \<open>f i j\<close>.
\<close>

definition at2 :: "ndarray \<Rightarrow> nat \<Rightarrow> nat \<Rightarrow> real" where
  "at2 a i j = elems a ! (i * (shape a ! 1) + j)"

definition mk2 :: "nat \<Rightarrow> nat \<Rightarrow> (nat \<Rightarrow> nat \<Rightarrow> real) \<Rightarrow> ndarray" where
  "mk2 nl nc f =
     \<lparr>shape = [nl, nc],
      elems = concat (map (\<lambda>i. map (\<lambda>j. f i j) [0..<nc]) [0..<nl])\<rparr>"

text \<open>
  The same for an array of two or more dimensions, of shape \<open>nl # nc # rest\<close>: the
  slices \<^verbatim>\<open>a[i, j]\<close> are blocks of \<open>prod_list rest\<close> samples, and \<open>at3 a i j k\<close> is
  the \<open>k\<close>-th sample of the block \<^verbatim>\<open>a[i, j]\<close>. For a two-dimensional array the block is
  one sample.
\<close>

definition at3 :: "ndarray \<Rightarrow> nat \<Rightarrow> nat \<Rightarrow> nat \<Rightarrow> real" where
  "at3 a i j k = elems a ! ((i * (shape a ! 1) + j) * prod_list (drop 2 (shape a)) + k)"

definition mk3 :: "nat \<Rightarrow> nat \<Rightarrow> nat list \<Rightarrow> (nat \<Rightarrow> nat \<Rightarrow> nat \<Rightarrow> real) \<Rightarrow> ndarray" where
  "mk3 nl nc rest f =
     \<lparr>shape = nl # nc # rest,
      elems = concat (map (\<lambda>i. concat (map (\<lambda>j. map (\<lambda>k. f i j k) [0..<prod_list rest])
                                            [0..<nc])) [0..<nl])\<rparr>"

section \<open>Errors\<close>

text \<open>
  The exceptions the module and the libraries under it raise. \<open>ShapeMismatch\<close> is the
  \<^verbatim>\<open>ValueError("Images should have the same size")\<close> of \<^verbatim>\<open>get_pyramid\<close>,
  \<open>DimensionalityError\<close> the \<^verbatim>\<open>ValueError("Images should be grayscale.")\<close> of
  \<^verbatim>\<open>coarse_to_fine\<close>; \<open>ValueError\<close> stands for every other \<^verbatim>\<open>ValueError\<close>
  (unpacking a shape that is not a pair, \<^verbatim>\<open>min\<close> of an empty shape, a scale factor the
  library refuses). \<open>Unmodelled\<close> marks the inputs on which a library function is left
  out of this model; no theorem below is about them.
\<close>

datatype error =
  ShapeMismatch | DimensionalityError | IndexError | ValueError | ZeroDivisionError | Unmodelled

section \<open>Finite differences\<close>

text \<open>
  \<^verbatim>\<open>
  def forward_diff(p):
      p_x = p.copy()
      p_x[:, :-1] -= p[:, 1:]
      p_x[:, -1] = p_x[:, -2]
      p_y = p.copy()
      p_y[:-1, :] -= p[1:, :]
      p_y[-1, :] = p_y[-2, :]
      return p_x, p_y
  \<close>
  The slices need two axes (an \<^verbatim>\<open>IndexError\<close> otherwise). The two slice updates always
  succeed; the columns \<open>-1\<close> and \<open>-2\<close> exist only when there are two columns at
  least, and the same holds for the rows. After the first update column \<open>nc - 2\<close> of
  \<open>p_x\<close> holds \<open>p[:, nc - 2] - p[:, nc - 1]\<close>, which the second statement copies into
  the last column.
\<close>

definition forward_diff :: "ndarray \<Rightarrow> error + (ndarray \<times> ndarray)" where
  "forward_diff p =
     (case shape p of
        nl # nc # rest \<Rightarrow>
          if nc < 2 then Inl IndexError
          else
            let p_x = mk3 nl nc rest (\<lambda>i j k.
                        if j < nc - 1 then at3 p i j k - at3 p i (j + 1) k
                        else at3 p i (nc - 2) k - at3 p i (nc - 1) k)
            in if nl < 2 then Inl IndexError
               else
                 let p_y = mk3 nl nc rest (\<lambda>i j k.
                             if i < nl - 1 then at3 p i j k - at3 p (i + 1) j k
                             else at3 p (nl - 2) j k - at3 p (nl - 1) j k)
                 in Inr (p_x, p_y)
      | _ \<Rightarrow> Inl IndexError)"

section \<open>Library functions\<close>

text \<open>
  The module calls numpy, scipy and scikit-image. Their sources are not part of the
  repository; what the module needs of them is modelled here, each function under its
  library name.
\<close>

text \<open>
  Modelled from the spec: elementwise \<^verbatim>\<open>s * a\<close> and \<^verbatim>\<open>a + b\<close> of numpy. The sum is
  modelled for two arrays of one shape; broadcasting between different shapes is not.
\<close>

definition scale :: "real \<Rightarrow> ndarray \<Rightarrow> ndarray" where
  "scale s a = \<lparr>shape = shape a, elems = map (\<lambda>x. s * x) (elems a)\<rparr>"

definition np_add :: "ndarray \<Rightarrow> ndarray \<Rightarrow> error + ndarray" where
  "np_add a b =
     (if shape a = shape b
      then Inr \<lparr>shape = shape a, elems = map2 (\<lambda>x y. x + y) (elems a) (elems b)\<rparr>
      else Inl Unmodelled)"

text \<open>
  Modelled from the spec: \<^verbatim>\<open>skimage.transform.resize(image, output_shape, order=0,
  preserve_range=True, anti_aliasing=False)\<close>, the nearest-neighbour resampling of section
  4.4, missing from the sources. Pixel \<open>i\<close> of \<open>n'\<close> target pixels has its centre at
  \<open>(i + 1/2) * n / n' - 1/2\<close> on the source axis of \<open>n\<close> pixels; the sample taken
  is the nearest one, index \<open>\<lfloor>(i + 1/2) * n / n'\<rfloor>\<close>, which lies in range. Every
  output sample is an input sample, unchanged (\<^verbatim>\<open>preserve_range\<close>). The model covers a
  non-empty two-dimensional image and a non-empty two-dimensional target shape.
\<close>

definition nearest :: "nat \<Rightarrow> nat \<Rightarrow> nat \<Rightarrow> nat" where
  "nearest n n' i = ((2 * i + 1) * n) div (2 * n')"

definition resize :: "ndarray \<Rightarrow> nat list \<Rightarrow> error + ndarray" where
  "resize img output_shape =
     (case shape img of
        [nl, nc] \<Rightarrow>
          (case output_shape of
             [rows, cols] \<Rightarrow>
               if nl = 0 \<or> nc = 0 \<or> rows = 0 \<or> cols = 0 then Inl Unmodelled
               else Inr (mk2 rows cols
                           (\<lambda>i j. at2 img (nearest nl rows i) (nearest nc cols j)))
           | _ \<Rightarrow> Inl Unmodelled)
      | _ \<Rightarrow> Inl Unmodelled)"

text \<open>
  Modelled from the spec: \<^verbatim>\<open>scipy.ndimage.map_coordinates(I, [cy, cx], order=1,
  mode='nearest')\<close>, the bilinear sampling of section 4.2 with the default out-of-bounds
  policy, missing from the sources. A coordinate is first clamped to the valid range
  \<open>[0, n - 1]\<close>; the sample is interpolated between the two neighbours on each axis,
  with weights \<open>1 - t\<close> and \<open>t\<close> for the fractional part \<open>t\<close>. The output has the
  shape of the coordinate arrays. The model covers a non-empty two-dimensional image and
  the policy \<^verbatim>\<open>'nearest'\<close>.
\<close>

definition clamp_coord :: "nat \<Rightarrow> real \<Rightarrow> real" where
  "clamp_coord n c = max 0 (min (real (n - 1)) c)"

definition bilinear :: "ndarray \<Rightarrow> real \<Rightarrow> real \<Rightarrow> real" where
  "bilinear I cy cx =
     (let nl = shape I ! 0; nc = shape I ! 1;
          yy = clamp_coord nl cy; xx = clamp_coord nc cx;
          i0 = nat \<lfloor>yy\<rfloor>; j0 = nat \<lfloor>xx\<rfloor>;
          ty = yy - real i0; tx = xx - real j0;
          i1 = min (i0 + 1) (nl - 1); j1 = min (j0 + 1) (nc - 1)
      in (1 - ty) * ((1 - tx) * at2 I i0 j0 + tx * at2 I i0 j1)
         + ty * ((1 - tx) * at2 I i1 j0 + tx * at2 I i1 j1))"

definition map_coordinates :: "ndarray \<Rightarrow> ndarray \<Rightarrow> ndarray \<Rightarrow> string \<Rightarrow> error + ndarray" where
  "map_coordinates I cy cx mode =
     (case shape I of
        [nl, nc] \<Rightarrow>
          if nl = 0 \<or> nc = 0 \<or> shape cy \<noteq> shape cx \<or> mode \<noteq> ''nearest'' then Inl Unmodelled
          else Inr \<lparr>shape = shape cy,
                    elems = map2 (\<lambda>y x. bilinear I y x) (elems cy) (elems cx)\<rparr>
      | _ \<Rightarrow> Inl Unmodelled)"

text \<open>
  Modelled from the spec: \<^verbatim>\<open>skimage.img_as_float32\<close> and
  \<^verbatim>\<open>skimage.transform.pyramid_reduce(image, downscale, multichannel=False)\<close>, missing
  from the sources. The conversion keeps the shape and maps each sample on its own; the
  reduction (section 4.3: anti-aliased reduction by \<open>downscale\<close>) divides every
  dimension by \<open>downscale\<close>, rounding up, and the library refuses a factor that is not
  greater than one. The reduction is modelled for a two-dimensional image that is not
  empty. The samples both functions compute are left open: the record \<open>skimage\<close>
  supplies them, and every theorem holds for each choice.
\<close>

record skimage =
  to_float :: "real \<Rightarrow> real"
  reduce_sample :: "ndarray \<Rightarrow> real \<Rightarrow> nat \<Rightarrow> real"

definition img_as_float32 :: "skimage \<Rightarrow> ndarray \<Rightarrow> ndarray" where
  "img_as_float32 lib a = \<lparr>shape = shape a, elems = map (to_float lib) (elems a)\<rparr>"

definition pyramid_reduce :: "skimage \<Rightarrow> ndarray \<Rightarrow> real \<Rightarrow> error + ndarray" where
  "pyramid_reduce lib img downscale =
     (if downscale \<le> 1 then Inl ValueError
      else if ndim img \<noteq> 2 \<or> 0 \<in> set (shape img) then Inl Unmodelled
      else
        let out_shape = map (\<lambda>d. nat \<lceil>real d / downscale\<rceil>) (shape img)
        in Inr \<lparr>shape = out_shape,
                 elems = map (reduce_sample lib img downscale) [0..<prod_list out_shape]\<rparr>)"

section \<open>Warping\<close>

text \<open>
  \<^verbatim>\<open>
  def warp(I, u, v, x=None, y=None, mode='nearest'):
      if (x is None) or (y is None):
          nl, nc = I.shape
          y, x = np.meshgrid(np.arange(nl)-0.5, np.arange(nc)-0.5, indexing='ij')
      return ndi.map_coordinates(I, [y+v, x+u], order=1, mode=mode)
  \<close>
  Unpacking the shape raises \<^verbatim>\<open>ValueError\<close> unless the image has two dimensions. The
  generated grids hold \<open>i - 0.5\<close> and \<open>j - 0.5\<close> at pixel \<open>(i, j)\<close>.
\<close>

definition meshgrid_y :: "nat \<Rightarrow> nat \<Rightarrow> ndarray" where
  "meshgrid_y nl nc = mk2 nl nc (\<lambda>i j. real i - 0.5)"

definition meshgrid_x :: "nat \<Rightarrow> nat \<Rightarrow> ndarray" where
  "meshgrid_x nl nc = mk2 nl nc (\<lambda>i j. real j - 0.5)"

definition warp ::
  "ndarray \<Rightarrow> ndarray \<Rightarrow> ndarray \<Rightarrow> ndarray option \<Rightarrow> ndarray option \<Rightarrow> string
     \<Rightarrow> error + ndarray" where
  "warp I u v x y mode =
     (case (case (x, y) of
              (Some x', Some y') \<Rightarrow> Inr (y', x')
            | _ \<Rightarrow> (case shape I of
                       [nl, nc] \<Rightarrow> Inr (meshgrid_y nl nc, meshgrid_x nl nc)
                     | _ \<Rightarrow> Inl ValueError)) of
        Inl e \<Rightarrow> Inl e
      | Inr (y', x') \<Rightarrow>
          (case np_add y' v of
             Inl e \<Rightarrow> Inl e
           | Inr yv \<Rightarrow>
               (case np_add x' u of
                  Inl e \<Rightarrow> Inl e
                | Inr xu \<Rightarrow> map_coordinates I yv xu mode)))"

section \<open>Rescaling a flow field\<close>

text \<open>
  \<^verbatim>\<open>
  def upscale_flow(u, v, shape):
      nl, nc = u.shape
      sy, sx = shape[0]/nl, shape[1]/nc
      u = resize(u, shape, order=0, preserve_range=True, anti_aliasing=False)
      v = resize(v, shape, order=0, preserve_range=True, anti_aliasing=False)
      return sx*u, sy*v
  \<close>
  Unpacking raises \<^verbatim>\<open>ValueError\<close> unless \<open>u\<close> has two dimensions; \<^verbatim>\<open>shape[0]\<close> and
  \<^verbatim>\<open>shape[1]\<close> raise \<^verbatim>\<open>IndexError\<close> on a shorter shape, and the divisions raise
  \<^verbatim>\<open>ZeroDivisionError\<close> when \<open>u\<close> has no rows or no columns, in this order.
\<close>

definition upscale_flow :: "ndarray \<Rightarrow> ndarray \<Rightarrow> nat list \<Rightarrow> error + (ndarray \<times> ndarray)" where
  "upscale_flow u v shp =
     (case shape u of
        [nl, nc] \<Rightarrow>
          (case shp of
             [] \<Rightarrow> Inl IndexError
           | s0 # t \<Rightarrow>
               if nl = 0 then Inl ZeroDivisionError
               else
                 (case t of
                    [] \<Rightarrow> Inl IndexError
                  | s1 # _ \<Rightarrow>
                      if nc = 0 then Inl ZeroDivisionError
                      else
                        let sy = real s0 / real nl; sx = real s1 / real nc
                        in (case resize u shp of
                              Inl e \<Rightarrow> Inl e
                            | Inr u' \<Rightarrow>
                                (case resize v shp of
                                   Inl e \<Rightarrow> Inl e
                                 | Inr v' \<Rightarrow> Inr (scale sx u', scale sy v')))))
      | _ \<Rightarrow> Inl ValueError)"

section \<open>The image pyramid\<close>

text \<open>
  \<^verbatim>\<open>
  def get_pyramid(I0, I1, downscale=2.0, min_size=16):
      if I0.shape != I1.shape:
          raise ValueError("Images should have the same size")
      pyramid = [(I0, I1)]
      size = min(I0.shape[:2])
      while size > min_size:
          J0 = pyramid_reduce(pyramid[-1][0], downscale, multichannel=False)
          J1 = pyramid_reduce(pyramid[-1][1], downscale, multichannel=False)
          pyramid.append((J0, J1))
          size = min(J0.shape[:2])
      return pyramid[::-1]
  \<close>
  \<^verbatim>\<open>min\<close> of an empty shape raises \<^verbatim>\<open>ValueError\<close>. Nothing bounds the number of
  turns of the loop, so it is a partial function: \<open>None\<close> is the run that never
  returns, \<open>Some (Inl e)\<close> the run that raises \<open>e\<close>, \<open>Some (Inr p)\<close> the run that
  returns the pyramid \<open>p\<close>.
\<close>

definition min_dim :: "ndarray \<Rightarrow> error + nat" where
  "min_dim I = (case take 2 (shape I) of [] \<Rightarrow> Inl ValueError | d # ds \<Rightarrow> Inr (fold min ds d))"

partial_function (option) pyramid_loop ::
  "skimage \<Rightarrow> real \<Rightarrow> int \<Rightarrow> (ndarray \<times> ndarray) list \<Rightarrow> nat
     \<Rightarrow> (error + (ndarray \<times> ndarray) list) option" where
  "pyramid_loop lib downscale min_size pyramid sz =
     (if int sz > min_size then
        (case rev pyramid of
           [] \<Rightarrow> Some (Inl IndexError)
         | (P0, P1) # _ \<Rightarrow>
             (case pyramid_reduce lib P0 downscale of
                Inl e \<Rightarrow> Some (Inl e)
              | Inr J0 \<Rightarrow>
                  (case pyramid_reduce lib P1 downscale of
                     Inl e \<Rightarrow> Some (Inl e)
                   | Inr J1 \<Rightarrow>
                       (case min_dim J0 of
                          Inl e \<Rightarrow> Some (Inl e)
                        | Inr sz' \<Rightarrow>
                            pyramid_loop lib downscale min_size (pyramid @ [(J0, J1)]) sz'))))
      else Some (Inr (rev pyramid)))"

definition get_pyramid ::
  "skimage \<Rightarrow> ndarray \<Rightarrow> ndarray \<Rightarrow> real \<Rightarrow> int \<Rightarrow> (error + (ndarray \<times> ndarray) list) option" where
  "get_pyramid lib I0 I1 downscale min_size =
     (if shape I0 \<noteq> shape I1 then Some (Inl ShapeMismatch)
      else
        (case min_dim I0 of
           Inl e \<Rightarrow> Some (Inl e)
         | Inr sz \<Rightarrow> pyramid_loop lib downscale min_size [(I0, I1)] sz))"

text \<open>The defaults of the signature.\<close>

definition default_downscale :: real where
  "default_downscale = 2"

definition default_min_size :: int where
  "default_min_size = 16"

section \<open>The coarse-to-fine driver\<close>

text \<open>
  \<^verbatim>\<open>
  def coarse_to_fine(I0, I1, solver, downscale=2.0):
      if (I0.ndim != 2) or (I1.ndim != 2):
          raise ValueError("Images should be grayscale.")
      pyramid = get_pyramid(skimage.img_as_float32(I0),
                            skimage.img_as_float32(I1), downscale)
      u = np.zeros_like(pyramid[0][0])
      v = np.zeros_like(u)
      u, v = solver(pyramid[0][0], pyramid[0][1], u, v)
      for J0, J1 in pyramid[1:]:
          u, v = upscale_flow(u, v, J0.shape)
          u, v = solver(J0, J1, u, v)
      return u, v
  \<close>
  The solver is a parameter: a function from the two images of a level and a flow to a
  refined flow, or to a failure of its own (a value of any type \<open>'x\<close>), which the driver
  lets through. What the driver raises itself, or what \<open>get_pyramid\<close> and
  \<open>upscale_flow\<close> raise under it, is kept apart from a failure of the solver.

  Three claims are about which calls the driver makes and in which order. The model
  therefore returns, beside the result, the list of the calls made to \<open>get_pyramid\<close> and
  to the solver, each with its arguments, in the order of the calls. The list is no value
  of the Python program; it is what a test double in place of the solver would record.
\<close>

datatype 'x failure = Raised error | Solver_raised 'x

datatype event =
  Call_get_pyramid ndarray ndarray real
| Call_solver ndarray ndarray ndarray ndarray

type_synonym 'x solver =
  "ndarray \<Rightarrow> ndarray \<Rightarrow> ndarray \<Rightarrow> ndarray \<Rightarrow> 'x + (ndarray \<times> ndarray)"

text \<open>The loop over \<^verbatim>\<open>pyramid[1:]\<close>; an exception ends it.\<close>

fun solve_levels ::
  "'x solver \<Rightarrow> (ndarray \<times> ndarray) list \<Rightarrow> ndarray \<Rightarrow> ndarray \<Rightarrow> event list
     \<Rightarrow> event list \<times> ('x failure + (ndarray \<times> ndarray))" where
  "solve_levels solver [] u v calls = (calls, Inr (u, v))"
| "solve_levels solver ((J0, J1) # rest) u v calls =
     (case upscale_flow u v (shape J0) of
        Inl e \<Rightarrow> (calls, Inl (Raised e))
      | Inr (u1, v1) \<Rightarrow>
          (case solver J0 J1 u1 v1 of
             Inl x \<Rightarrow> (calls @ [Call_solver J0 J1 u1 v1], Inl (Solver_raised x))
           | Inr (u2, v2) \<Rightarrow>
               solve_levels solver rest u2 v2 (calls @ [Call_solver J0 J1 u1 v1])))"

definition coarse_to_fine ::
  "skimage \<Rightarrow> ndarray \<Rightarrow> ndarray \<Rightarrow> 'x solver \<Rightarrow> real
     \<Rightarrow> (event list \<times> ('x failure + (ndarray \<times> ndarray))) option" where
  "coarse_to_fine lib I0 I1 solver downscale =
     (if ndim I0 \<noteq> 2 \<or> ndim I1 \<noteq> 2 then Some ([], Inl (Raised DimensionalityError))
      else
        let F0 = img_as_float32 lib I0; F1 = img_as_float32 lib I1;
            calls = [Call_get_pyramid F0 F1 downscale]
        in (case get_pyramid lib F0 F1 downscale default_min_size of
              None \<Rightarrow> None
            | Some (Inl e) \<Rightarrow> Some (calls, Inl (Raised e))
            | Some (Inr pyramid) \<Rightarrow>
                (case pyramid of
                   [] \<Rightarrow> Some (calls, Inl (Raised IndexError))
                 | (P0, P1) # rest \<Rightarrow>
                     let u = zeros_like P0; v = zeros_like u
                     in (case solver P0 P1 u v of
                           Inl x \<Rightarrow> Some (calls @ [Call_solver P0 P1 u v], Inl (Solver_raised x))
                         | Inr (u', v') \<Rightarrow>
                             Some (solve_levels solver rest u' v'
                                     (calls @ [Call_solver P0 P1 u v]))))))"

section \<open>Vocabulary of the theorems\<close>

text \<open>
  The order in which \<open>get_pyramid\<close> builds its levels, from the full resolution down:
  every level is a pair of two-dimensional images of one shape, every level but the last
  is larger than \<open>min_size\<close> and is followed by its reduction, and the last level is not
  larger than \<open>min_size\<close>.
\<close>

fun fine_to_coarse :: "real \<Rightarrow> int \<Rightarrow> (ndarray \<times> ndarray) list \<Rightarrow> bool" where
  "fine_to_coarse downscale min_size [] = False"
| "fine_to_coarse downscale min_size [(A, B)] =
     (ndim A = 2 \<and> shape B = shape A
      \<and> (case min_dim A of Inl e \<Rightarrow> False | Inr s \<Rightarrow> int s \<le> min_size))"
| "fine_to_coarse downscale min_size ((A, B) # (C, D) # rest) =
     (ndim A = 2 \<and> shape B = shape A
      \<and> (case min_dim A of Inl e \<Rightarrow> False | Inr s \<Rightarrow> min_size < int s)
      \<and> shape C = map (\<lambda>d. nat \<lceil>real d / downscale\<rceil>) (shape A)
      \<and> fine_to_coarse downscale min_size ((C, D) # rest))"






text \<open>
  Concrete collaborators for the worked examples: a library whose conversion changes no
  sample and whose reduction fills in zeros, and the solver that returns the flow it is
  given.
\<close>

definition lib0 :: skimage where
  "lib0 = \<lparr>to_float = (\<lambda>x. x), reduce_sample = (\<lambda>img downscale n. 0)\<rparr>"

definition identity_solver :: "'x solver" where
  "identity_solver J0 J1 u v = Inr (u, v)"

section \<open>Facts about arrays\<close>

lemma concat_replicate_block:
  "concat (map (\<lambda>i. replicate m c) [0..<n]) = replicate (n * m) c"
  by (induction n) (simp_all add: replicate_add [symmetric] add.commute)

lemma map_const_upt:
  assumes "\<And>k. k < n \<Longrightarrow> f k = c"
  shows "map f [0..<n] = replicate n c"
proof -
  have "map f [0..<n] = map (\<lambda>k. c) [0..<n]"
    using assms by (intro map_cong) simp_all
  then show ?thesis by (simp add: map_replicate_const)
qed

lemma index3_less:
  fixes i j k nl nc m :: nat
  assumes "i < nl" "j < nc" "k < m"
  shows "(i * nc + j) * m + k < nl * nc * m"
proof -
  have "i * nc + j < nl * nc"
  proof -
    have "i * nc + j < i * nc + nc" using assms(2) by simp
    also have "\<dots> = Suc i * nc" by simp
    also have "\<dots> \<le> nl * nc" using assms(1) by (intro mult_le_mono1) simp
    finally show ?thesis .
  qed
  then have "Suc (i * nc + j) * m \<le> nl * nc * m"
    by (intro mult_le_mono1) simp
  moreover have "(i * nc + j) * m + k < Suc (i * nc + j) * m"
    using assms(3) by simp
  ultimately show ?thesis by linarith
qed

lemma at3_full:
  assumes "i < nl" "j < nc" "k < prod_list rest"
  shows "at3 (full (nl # nc # rest) c) i j k = c"
  using index3_less [OF assms] by (simp add: at3_def full_def mult.assoc)

lemma mk3_const:
  assumes "\<And>i j k. i < nl \<Longrightarrow> j < nc \<Longrightarrow> k < prod_list rest \<Longrightarrow> f i j k = c"
  shows "mk3 nl nc rest f = full (nl # nc # rest) c"
proof -
  have inner: "map (\<lambda>k. f i j k) [0..<prod_list rest] = replicate (prod_list rest) c"
    if "i < nl" "j < nc" for i j
    using that assms by (intro map_const_upt) simp
  have middle: "concat (map (\<lambda>j. map (\<lambda>k. f i j k) [0..<prod_list rest]) [0..<nc])
      = replicate (nc * prod_list rest) c" if "i < nl" for i
  proof -
    have "map (\<lambda>j. map (\<lambda>k. f i j k) [0..<prod_list rest]) [0..<nc]
        = map (\<lambda>j. replicate (prod_list rest) c) [0..<nc]"
      using inner [OF that] by (intro map_cong) simp_all
    then show ?thesis by (simp only: concat_replicate_block)
  qed
  have "map (\<lambda>i. concat (map (\<lambda>j. map (\<lambda>k. f i j k) [0..<prod_list rest]) [0..<nc])) [0..<nl]
      = map (\<lambda>i. replicate (nc * prod_list rest) c) [0..<nl]"
    using middle by (intro map_cong) simp_all
  then have "concat (map (\<lambda>i. concat (map (\<lambda>j. map (\<lambda>k. f i j k) [0..<prod_list rest])
      [0..<nc])) [0..<nl]) = replicate (nl * (nc * prod_list rest)) c"
    by (simp only: concat_replicate_block)
  then show ?thesis
    by (simp add: mk3_def full_def)
qed

lemma length_concat_rows:
  "length (concat (map (\<lambda>i. map (g i) [0..<m]) [0..<n])) = n * m"
  by (induction n) simp_all

lemma nth_concat_rows:
  assumes "i < n" "j < m"
  shows "concat (map (\<lambda>i. map (g i) [0..<m]) [0..<n]) ! (i * m + j) = g i j"
  using assms(1)
proof (induction n)
  case 0
  then show ?case by simp
next
  case (Suc n)
  show ?case
  proof (cases "i < n")
    case True
    have "i * m + j < n * m"
      using index3_less [of i n j m 0 1] True assms(2) by simp
    then show ?thesis
      using Suc.IH [OF True] by (simp add: nth_append length_concat_rows)
  next
    case False
    then have "i = n" using Suc.prems by simp
    then show ?thesis
      using assms(2) by (simp add: nth_append length_concat_rows)
  qed
qed

lemma shape_mk2: "shape (mk2 nl nc f) = [nl, nc]"
  by (simp add: mk2_def)


lemma at2_mk2:
  assumes "i < nl" "j < nc"
  shows "at2 (mk2 nl nc f) i j = f i j"
  using nth_concat_rows [OF assms, of f] by (simp add: at2_def mk2_def)

lemma at2_full:
  assumes "i < nl" "j < nc"
  shows "at2 (full [nl, nc] c) i j = c"
  using index3_less [of i nl j nc 0 1] assms by (simp add: at2_def full_def)

lemma mk2_const:
  assumes "\<And>i j. i < nl \<Longrightarrow> j < nc \<Longrightarrow> f i j = c"
  shows "mk2 nl nc f = full [nl, nc] c"
proof -
  have "map (\<lambda>i. map (\<lambda>j. f i j) [0..<nc]) [0..<nl] = map (\<lambda>i. replicate nc c) [0..<nl]"
    using assms by (intro map_cong refl map_const_upt) simp_all
  then have "concat (map (\<lambda>i. map (\<lambda>j. f i j) [0..<nc]) [0..<nl]) = replicate (nl * nc) c"
    by (simp only: concat_replicate_block)
  then show ?thesis by (simp add: mk2_def full_def)
qed

lemma mk2_at2:
  assumes "shape a = [nl, nc]" "wf_array a"
  shows "mk2 nl nc (\<lambda>i j. at2 a i j) = a"
proof -
  have len: "length (elems a) = nl * nc"
    using assms by (simp add: wf_array_def)
  have "concat (map (\<lambda>i. map (\<lambda>j. at2 a i j) [0..<nc]) [0..<nl]) = elems a"
  proof (rule nth_equalityI)
    show "length (concat (map (\<lambda>i. map (\<lambda>j. at2 a i j) [0..<nc]) [0..<nl])) = length (elems a)"
      by (simp add: length_concat_rows len)
  next
    fix k assume "k < length (concat (map (\<lambda>i. map (\<lambda>j. at2 a i j) [0..<nc]) [0..<nl]))"
    then have k: "k < nl * nc" by (simp add: length_concat_rows)
    then have nc: "0 < nc" by (cases nc) simp_all
    have i: "k div nc < nl" using k nc by (simp add: less_mult_imp_div_less)
    have j: "k mod nc < nc" using nc by simp
    have "concat (map (\<lambda>i. map (\<lambda>j. at2 a i j) [0..<nc]) [0..<nl]) ! (k div nc * nc + k mod nc)
        = at2 a (k div nc) (k mod nc)"
      by (rule nth_concat_rows [OF i j])
    then show "concat (map (\<lambda>i. map (\<lambda>j. at2 a i j) [0..<nc]) [0..<nl]) ! k = elems a ! k"
      by (simp add: at2_def assms(1))
  qed
  then show ?thesis using assms(1) by (simp add: mk2_def)
qed

lemma nearest_less:
  assumes "i < n'" "0 < n"
  shows "nearest n n' i < n"
proof -
  have "2 * i + 1 < 2 * n'" using assms(1) by simp
  then have "(2 * i + 1) * n < 2 * n' * n" using assms(2) by (rule mult_strict_right_mono)
  then have "(2 * i + 1) * n < n * (2 * n')" by (simp add: mult.commute)
  moreover have "0 < 2 * n'" using assms(1) by simp
  ultimately show ?thesis
    unfolding nearest_def by (simp only: div_less_iff_less_mult)
qed

lemma nearest_same:
  assumes "0 < n"
  shows "nearest n n i = i"
proof -
  have "(2 * i + 1) * n div (2 * n) = (2 * i + 1) div 2"
    using assms by (simp only: div_mult_mult2)
  then show ?thesis by (simp add: nearest_def)
qed

section \<open>Finite differences of a constant grid\<close>

lemma forward_diff_full:
  assumes "2 \<le> nl" "2 \<le> nc"
  shows "forward_diff (full (nl # nc # rest) c)
       = Inr (full (nl # nc # rest) 0, full (nl # nc # rest) 0)"
proof -
  let ?p = "full (nl # nc # rest) c"
  have x: "mk3 nl nc rest (\<lambda>i j k.
              if j < nc - 1 then at3 ?p i j k - at3 ?p i (j + 1) k
              else at3 ?p i (nc - 2) k - at3 ?p i (nc - 1) k) = full (nl # nc # rest) 0"
  proof (rule mk3_const)
    fix i j k assume b: "i < nl" "j < nc" "k < prod_list rest"
    have "j < nc - 1 \<Longrightarrow> at3 ?p i (j + 1) k = c"
      using b by (intro at3_full) simp_all
    moreover have "at3 ?p i (nc - 2) k = c" "at3 ?p i (nc - 1) k = c" "at3 ?p i j k = c"
      using b assms by (simp_all add: at3_full)
    ultimately show "(if j < nc - 1 then at3 ?p i j k - at3 ?p i (j + 1) k
        else at3 ?p i (nc - 2) k - at3 ?p i (nc - 1) k) = 0"
      by simp
  qed
  have y: "mk3 nl nc rest (\<lambda>i j k.
              if i < nl - 1 then at3 ?p i j k - at3 ?p (i + 1) j k
              else at3 ?p (nl - 2) j k - at3 ?p (nl - 1) j k) = full (nl # nc # rest) 0"
  proof (rule mk3_const)
    fix i j k assume b: "i < nl" "j < nc" "k < prod_list rest"
    have "i < nl - 1 \<Longrightarrow> at3 ?p (i + 1) j k = c"
      using b by (intro at3_full) simp_all
    moreover have "at3 ?p (nl - 2) j k = c" "at3 ?p (nl - 1) j k = c" "at3 ?p i j k = c"
      using b assms by (simp_all add: at3_full)
    ultimately show "(if i < nl - 1 then at3 ?p i j k - at3 ?p (i + 1) j k
        else at3 ?p (nl - 2) j k - at3 ?p (nl - 1) j k) = 0"
      by simp
  qed
  have s: "shape ?p = nl # nc # rest" by (simp add: full_def)
  have "forward_diff ?p = (if nc < 2 then Inl IndexError else if nl < 2 then Inl IndexError
      else Inr (full (nl # nc # rest) 0, full (nl # nc # rest) 0))"
    unfolding forward_diff_def s by (simp only: list.case Let_def x y)
  then show ?thesis using assms by simp
qed

text \<open>
  C8, as amended. For every constant two-dimensional grid with at least two rows and at
  least two columns, \<open>forward_diff\<close> returns two grids of the shape of the input whose
  samples are all zero, the last row and the last column included.
\<close>

theorem forward_diff_constant:
  assumes "2 \<le> nl" and "2 \<le> nc"
  shows "forward_diff (full [nl, nc] c) = Inr (full [nl, nc] 0, full [nl, nc] 0)"
  using assms by (rule forward_diff_full)

theorem forward_diff_constant_witness:
  "forward_diff (full [2, 3] 7) = Inr (full [2, 3] 0, full [2, 3] 0)"
  using forward_diff_constant [of 2 3 7] by simp

text \<open>
  C8 as stated fails on a grid with a single column: the column \<open>-2\<close> that the
  replication reads does not exist, and numpy raises \<^verbatim>\<open>IndexError\<close>.
\<close>

theorem forward_diff_single_column:
  "forward_diff (full [2, 1] 5) = Inl IndexError"
  by (simp add: forward_diff_def full_def)

section \<open>Rescaling\<close>

lemma shape_full: "shape (full s c) = s"
  by (simp add: full_def)


lemma scale_full: "scale s (full sh c) = full sh (s * c)"
  by (simp add: scale_def full_def)

lemma scale_one: "scale 1 a = a"
  by (simp add: scale_def)



lemma resize_2d:
  assumes "shape a = [nl, nc]" "0 < nl" "0 < nc" "0 < rows" "0 < cols"
  shows "resize a [rows, cols]
       = Inr (mk2 rows cols (\<lambda>i j. at2 a (nearest nl rows i) (nearest nc cols j)))"
  using assms by (simp add: resize_def)

lemma resize_full:
  assumes "0 < nl" "0 < nc" "0 < rows" "0 < cols"
  shows "resize (full [nl, nc] c) [rows, cols] = Inr (full [rows, cols] c)"
proof -
  have "mk2 rows cols (\<lambda>i j. at2 (full [nl, nc] c) (nearest nl rows i) (nearest nc cols j))
      = full [rows, cols] c"
  proof (rule mk2_const)
    fix i j assume "i < rows" "j < cols"
    then show "at2 (full [nl, nc] c) (nearest nl rows i) (nearest nc cols j) = c"
      using assms by (intro at2_full nearest_less)
  qed
  then show ?thesis
    using resize_2d [OF shape_full assms] by simp
qed

lemma resize_same:
  assumes "shape a = [nl, nc]" "wf_array a" "0 < nl" "0 < nc"
  shows "resize a [nl, nc] = Inr a"
proof -
  have "mk2 nl nc (\<lambda>i j. at2 a (nearest nl nl i) (nearest nc nc j)) = mk2 nl nc (\<lambda>i j. at2 a i j)"
    using assms(3,4) by (simp add: nearest_same)
  then show ?thesis
    using resize_2d [OF assms(1) assms(3,4) assms(3,4)] mk2_at2 [OF assms(1,2)] by simp
qed

lemma upscale_flow_2d:
  assumes "shape u = [h, w]" "0 < h" "0 < w"
  shows "upscale_flow u v [h', w']
       = (case resize u [h', w'] of
            Inl e \<Rightarrow> Inl e
          | Inr u' \<Rightarrow>
              (case resize v [h', w'] of
                 Inl e \<Rightarrow> Inl e
               | Inr v' \<Rightarrow> Inr (scale (real w' / real w) u', scale (real h' / real h) v')))"
  using assms by (simp add: upscale_flow_def)

lemma upscale_flow_full:
  assumes "0 < h" "0 < w" "0 < h'" "0 < w'"
  shows "upscale_flow (full [h, w] c1) (full [h, w] c2) [h', w']
       = Inr (full [h', w'] (c1 * real w' / real w), full [h', w'] (c2 * real h' / real h))"
  using assms
  by (simp add: upscale_flow_2d [OF shape_full] resize_full scale_full mult.commute)





text \<open>
  C10, as amended. For a flow field \<open>(u, v)\<close> that is not empty, \<open>upscale_flow\<close> to
  the shape \<open>u\<close> has already returns \<open>u\<close> and \<open>v\<close> themselves: both scale factors
  are one and the resampling to the same shape keeps every sample.
\<close>

theorem upscale_flow_same_shape:
  assumes "shape u = [h, w]" and "shape v = [h, w]" and "wf_array u" and "wf_array v"
    and "0 < h" and "0 < w"
  shows "upscale_flow u v (shape u) = Inr (u, v)"
  using assms by (simp add: upscale_flow_2d resize_same scale_one)

theorem upscale_flow_same_shape_witness:
  "upscale_flow \<lparr>shape = [2, 2], elems = [1, 2, 3, 4]\<rparr> \<lparr>shape = [2, 2], elems = [5, 6, 7, 8]\<rparr> [2, 2]
     = Inr (\<lparr>shape = [2, 2], elems = [1, 2, 3, 4]\<rparr>, \<lparr>shape = [2, 2], elems = [5, 6, 7, 8]\<rparr>)"
  using upscale_flow_same_shape [of "\<lparr>shape = [2, 2], elems = [1, 2, 3, 4]\<rparr>" 2 2
      "\<lparr>shape = [2, 2], elems = [5, 6, 7, 8]\<rparr>"]
  by (simp add: wf_array_def)

text \<open>
  C10 as stated fails on a flow field without rows: rescaled to its own shape, the
  division \<^verbatim>\<open>shape[0]/nl\<close> is 0/0 and raises \<^verbatim>\<open>ZeroDivisionError\<close>.
\<close>

theorem upscale_flow_same_shape_empty:
  "upscale_flow (full [0, 3] 0) (full [0, 3] 0) (shape (full [0, 3] 0)) = Inl ZeroDivisionError"
  by (simp add: upscale_flow_def shape_full)

section \<open>Warping by the zero flow\<close>

lemma map2_rows:
  "map2 f (concat (map (\<lambda>i. map (g i) [0..<m]) [0..<n]))
          (concat (map (\<lambda>i. map (h i) [0..<m]) [0..<n]))
   = concat (map (\<lambda>i. map (\<lambda>j. f (g i j) (h i j)) [0..<m]) [0..<n])"
proof (induction n)
  case 0
  then show ?case by simp
next
  case (Suc n)
  have row: "map2 f (map (g n) [0..<m]) (map (h n) [0..<m]) = map (\<lambda>j. f (g n j) (h n j)) [0..<m]"
    by (simp add: zip_map_map zip_same_conv_map)
  show ?case
    using Suc.IH row by (simp add: zip_append length_concat_rows)
qed

lemma np_add_mk2:
  "np_add (mk2 nl nc g) (mk2 nl nc h) = Inr (mk2 nl nc (\<lambda>i j. g i j + h i j))"
  by (simp add: np_add_def mk2_def map2_rows)

lemma full_as_mk2: "full [nl, nc] c = mk2 nl nc (\<lambda>i j. c)"
  by (rule mk2_const [symmetric]) simp

lemma map_coordinates_mk2:
  assumes "shape I = [nl, nc]" "0 < nl" "0 < nc"
  shows "map_coordinates I (mk2 rows cols g) (mk2 rows cols h) ''nearest''
       = Inr (mk2 rows cols (\<lambda>i j. bilinear I (g i j) (h i j)))"
  using assms by (simp add: map_coordinates_def mk2_def map2_rows)

lemma warp_zero_flow:
  assumes "shape I = [nl, nc]" "0 < nl" "0 < nc"
  shows "warp I (full [nl, nc] 0) (full [nl, nc] 0) None None ''nearest''
       = Inr (mk2 nl nc (\<lambda>i j. bilinear I (real i - 0.5) (real j - 0.5)))"
  using assms
  by (simp add: warp_def meshgrid_y_def meshgrid_x_def full_as_mk2 np_add_mk2
      map_coordinates_mk2)

lemma floor_half:
  assumes "1 \<le> i"
  shows "nat \<lfloor>real i - 1 / 2\<rfloor> = i - 1"
proof -
  have "\<lfloor>real i - 1 / 2\<rfloor> = int i - 1"
    by linarith
  then show ?thesis using assms by simp
qed

lemma clamp_coord_half:
  assumes "1 \<le> i" "i < n"
  shows "clamp_coord n (real i - 1 / 2) = real i - 1 / 2"
  using assms by (simp add: clamp_coord_def max_def min_def)

lemma bilinear_half:
  assumes "shape I = [nl, nc]" "1 \<le> i" "i < nl" "1 \<le> j" "j < nc"
  shows "bilinear I (real i - 1 / 2) (real j - 1 / 2)
       = (at2 I (i - 1) (j - 1) + at2 I (i - 1) j + at2 I i (j - 1) + at2 I i j) / 4"
proof -
  have s0: "shape I ! 0 = nl" and s1: "shape I ! 1 = nc"
    using assms(1) by simp_all
  have cy: "clamp_coord nl (real i - 1 / 2) = real i - 1 / 2"
    and cx: "clamp_coord nc (real j - 1 / 2) = real j - 1 / 2"
    using assms by (simp_all add: clamp_coord_half)
  have fy: "nat \<lfloor>real i - 1 / 2\<rfloor> = i - 1" and fx: "nat \<lfloor>real j - 1 / 2\<rfloor> = j - 1"
    using assms by (simp_all add: floor_half)
  have i1: "min (i - 1 + 1) (nl - 1) = i" and j1: "min (j - 1 + 1) (nc - 1) = j"
    using assms by simp_all
  have ti: "real i - 1 / 2 - real (i - 1) = 1 / 2" and tj: "real j - 1 / 2 - real (j - 1) = 1 / 2"
    using assms by (simp_all add: of_nat_diff)
  have "bilinear I (real i - 1 / 2) (real j - 1 / 2)
      = (1 - 1 / 2) * ((1 - 1 / 2) * at2 I (i - 1) (j - 1) + (1 / 2) * at2 I (i - 1) j)
        + (1 / 2) * ((1 - 1 / 2) * at2 I i (j - 1) + (1 / 2) * at2 I i j)"
    unfolding bilinear_def Let_def s0 s1 cy cx fy fx i1 j1 ti tj ..
  also have "\<dots> = (at2 I (i - 1) (j - 1) + at2 I (i - 1) j + at2 I i (j - 1) + at2 I i j) / 4"
    by (simp add: field_simps)
  finally show ?thesis .
qed

text \<open>
  C1, as amended. With an all-zero flow and no coordinate grids, \<open>warp\<close> returns an
  image of the shape of \<open>I\<close> whose sample at every pixel \<open>(i, j)\<close> with \<open>i \<ge> 1\<close>
  and \<open>j \<ge> 1\<close>, the interior pixels among them, is the bilinear sample of \<open>I\<close> at
  \<open>(i - 0.5, j - 0.5)\<close>: the mean of the four samples \<open>I[i - 1, j - 1]\<close>,
  \<open>I[i - 1, j]\<close>, \<open>I[i, j - 1]\<close> and \<open>I[i, j]\<close>.
\<close>

theorem warp_zero_flow_mean:
  assumes "shape I = [nl, nc]" and "1 \<le> i" and "i < nl" and "1 \<le> j" and "j < nc"
  shows "\<exists>W. warp I (full [nl, nc] 0) (full [nl, nc] 0) None None ''nearest'' = Inr W
           \<and> shape W = [nl, nc]
           \<and> at2 W i j
               = (at2 I (i - 1) (j - 1) + at2 I (i - 1) j + at2 I i (j - 1) + at2 I i j) / 4"
proof -
  have "0 < nl" "0 < nc" using assms by simp_all
  then show ?thesis
    using assms
    by (simp add: warp_zero_flow [OF assms(1)] shape_mk2 at2_mk2 bilinear_half)
qed

theorem warp_zero_flow_mean_witness:
  "\<exists>W. warp \<lparr>shape = [3, 3], elems = [1, 2, 3, 4, 5, 6, 7, 8, 9]\<rparr>
            (full [3, 3] 0) (full [3, 3] 0) None None ''nearest'' = Inr W
        \<and> shape W = [3, 3] \<and> at2 W 1 1 = 3"
  using warp_zero_flow_mean [of "\<lparr>shape = [3, 3], elems = [1, 2, 3, 4, 5, 6, 7, 8, 9]\<rparr>" 3 3 1 1]
  by (simp add: at2_def)

text \<open>
  C1 as stated fails: the offset of half a pixel makes the zero flow a blur, not the
  identity. On the image that is 1 at the centre of a 3 by 3 grid and 0 elsewhere, the
  warped centre pixel, an interior pixel, is 1/4.
\<close>

theorem warp_zero_flow_not_identity:
  "\<exists>W. warp \<lparr>shape = [3, 3], elems = [0, 0, 0, 0, 1, 0, 0, 0, 0]\<rparr>
            (full [3, 3] 0) (full [3, 3] 0) None None ''nearest'' = Inr W
        \<and> at2 W 1 1 = 1 / 4
        \<and> at2 \<lparr>shape = [3, 3], elems = [0, 0, 0, 0, 1, 0, 0, 0, 0]\<rparr> 1 1 = 1"
proof -
  let ?I = "\<lparr>shape = [3, 3], elems = [0, 0, 0, 0, 1, 0, 0, 0, 0]\<rparr>"
  have w: "warp ?I (full [3, 3] 0) (full [3, 3] 0) None None ''nearest''
      = Inr (mk2 3 3 (\<lambda>i j. bilinear ?I (real i - 0.5) (real j - 0.5)))"
    by (rule warp_zero_flow) simp_all
  have "bilinear ?I (real (1::nat) - 1 / 2) (real (1::nat) - 1 / 2)
      = (at2 ?I (1 - 1) (1 - 1) + at2 ?I (1 - 1) 1 + at2 ?I 1 (1 - 1) + at2 ?I 1 1) / 4"
    by (rule bilinear_half [where nl = 3 and nc = 3]) simp_all
  then have "bilinear ?I (real (1::nat) - 1 / 2) (real (1::nat) - 1 / 2) = 1 / 4"
    by (simp add: at2_def)
  then have "at2 (mk2 3 3 (\<lambda>i j. bilinear ?I (real i - 0.5) (real j - 0.5))) 1 1 = 1 / 4"
    by (simp add: at2_mk2)
  moreover have "at2 ?I 1 1 = 1"
    by (simp add: at2_def)
  ultimately show ?thesis
    using w by simp
qed

section \<open>The pyramid\<close>

lemma ceil_half: "nat \<lceil>real d / 2\<rceil> = (d + 1) div 2"
  by linarith

lemma pyramid_reduce_shape:
  assumes "shape I = [a, b]" "0 < a" "0 < b"
  shows "\<exists>J. pyramid_reduce lib I 2 = Inr J
           \<and> shape J = map (\<lambda>d. nat \<lceil>real d / 2\<rceil>) (shape I)"
  using assms by (simp add: pyramid_reduce_def Let_def ndim_def)

lemma ndim_2E:
  assumes "ndim I = 2"
  obtains a b where "shape I = [a, b]"
proof -
  from assms have "length (shape I) = 2" by (simp add: ndim_def)
  then obtain a b where "shape I = [a, b]"
    by (cases "shape I"; cases "tl (shape I)") auto
  then show ?thesis by (rule that)
qed

lemma min_dim_2d: "shape I = [a, b] \<Longrightarrow> min_dim I = Inr (min b a)"
  by (simp add: min_dim_def)

lemma min_dim_positive:
  assumes "ndim I = 2" "min_dim I = Inr s" "0 < s"
  obtains a b where "shape I = [a, b]" "0 < a" "0 < b"
proof -
  obtain a b where ab: "shape I = [a, b]" using assms(1) by (rule ndim_2E)
  then have "s = min b a" using assms(2) by (simp add: min_dim_2d)
  then have "0 < a" "0 < b" using assms(3) by simp_all
  with ab show ?thesis by (rule that)
qed

lemma min_dim_halved:
  assumes "ndim I = 2" "min_dim I = Inr s"
    and "shape J = map (\<lambda>d. nat \<lceil>real d / 2\<rceil>) (shape I)"
  shows "min_dim J = Inr ((s + 1) div 2)"
proof -
  obtain a b where ab: "shape I = [a, b]" using assms(1) by (rule ndim_2E)
  have "s = min b a" using assms(2) ab by (simp add: min_dim_2d)
  moreover have "shape J = [(a + 1) div 2, (b + 1) div 2]"
    using assms(3) ab by (simp add: ceil_half)
  ultimately show ?thesis
    by (simp add: min_dim_2d min_def) linarith
qed

lemma pyramid_loop_returns:
  assumes "1 \<le> m"
  shows "ndim A = 2 \<Longrightarrow> shape B = shape A \<Longrightarrow> min_dim A = Inr sz \<Longrightarrow>
     \<exists>tail. pyramid_loop lib 2 m (pre @ [(A, B)]) sz = Some (Inr (rev (pre @ tail)))
          \<and> hd tail = (A, B) \<and> fine_to_coarse 2 m tail"
proof (induction sz arbitrary: pre A B rule: less_induct)
  case (less sz)
  show ?case
  proof (cases "m < int sz")
    case False
    then have "pyramid_loop lib 2 m (pre @ [(A, B)]) sz = Some (Inr (rev (pre @ [(A, B)])))"
      by (subst pyramid_loop.simps) simp
    moreover have "fine_to_coarse 2 m [(A, B)]"
      using less.prems False by simp
    ultimately show ?thesis
      by (intro exI [of _ "[(A, B)]"]) simp
  next
    case True
    then have "0 < sz" using assms by simp
    with less.prems(1,3) obtain a b where ab: "shape A = [a, b]" "0 < a" "0 < b"
      by (rule min_dim_positive)
    have sB: "shape B = [a, b]" using ab(1) less.prems(2) by simp
    from pyramid_reduce_shape [OF ab, of lib]
    obtain J0 where J0: "pyramid_reduce lib A 2 = Inr J0"
      "shape J0 = map (\<lambda>d. nat \<lceil>real d / 2\<rceil>) (shape A)"
      by blast
    from pyramid_reduce_shape [OF sB ab(2,3), of lib]
    obtain J1 where J1: "pyramid_reduce lib B 2 = Inr J1"
      "shape J1 = map (\<lambda>d. nat \<lceil>real d / 2\<rceil>) (shape B)"
      by blast
    have sz': "min_dim J0 = Inr ((sz + 1) div 2)"
      using less.prems(1,3) J0(2) by (rule min_dim_halved)
    have lt: "(sz + 1) div 2 < sz"
      using True assms by linarith
    have step: "pyramid_loop lib 2 m (pre @ [(A, B)]) sz
        = pyramid_loop lib 2 m ((pre @ [(A, B)]) @ [(J0, J1)]) ((sz + 1) div 2)"
      by (subst pyramid_loop.simps) (simp add: True J0 J1 sz')
    have "ndim J0 = 2" "shape J1 = shape J0"
      using J0(2) J1(2) less.prems(1,2) by (simp_all add: ndim_def)
    from less.IH [OF lt this sz', of "pre @ [(A, B)]"]
    obtain tail' where t: "pyramid_loop lib 2 m ((pre @ [(A, B)]) @ [(J0, J1)]) ((sz + 1) div 2)
          = Some (Inr (rev ((pre @ [(A, B)]) @ tail')))"
        "hd tail' = (J0, J1)" "fine_to_coarse 2 m tail'"
      by blast
    from t(3) have "tail' \<noteq> []" by auto
    with t(2) obtain rest where rest: "tail' = (J0, J1) # rest"
      by (cases tail') auto
    have "fine_to_coarse 2 m ((A, B) # tail')"
      using t(3) less.prems True J0(2) unfolding rest by simp
    then show ?thesis
      using step t(1) by (intro exI [of _ "(A, B) # tail'"]) simp
  qed
qed

lemma get_pyramid_returns:
  assumes "shape I0 = shape I1" "ndim I0 = 2" "1 \<le> m"
  shows "\<exists>tail. get_pyramid lib I0 I1 2 m = Some (Inr (rev tail))
          \<and> hd tail = (I0, I1) \<and> fine_to_coarse 2 m tail"
proof -
  obtain a b where ab: "shape I0 = [a, b]" using assms(2) by (rule ndim_2E)
  then have md: "min_dim I0 = Inr (min b a)" by (rule min_dim_2d)
  from pyramid_loop_returns [OF assms(3) assms(2) assms(1) [symmetric] md, of lib "[]"]
  show ?thesis using assms(1) md by (simp add: get_pyramid_def)
qed

lemma fine_to_coarse_nonempty: "fine_to_coarse d m tail \<Longrightarrow> tail \<noteq> []"
  by auto

lemma fine_to_coarse_last:
  "fine_to_coarse d m tail \<Longrightarrow> \<exists>s. min_dim (fst (last tail)) = Inr s \<and> int s \<le> m"
  by (induction d m tail rule: fine_to_coarse.induct) (auto split: sum.splits)

lemma fine_to_coarse_inner:
  "fine_to_coarse d m tail \<Longrightarrow> Suc k < length tail
     \<Longrightarrow> \<exists>s. min_dim (fst (tail ! k)) = Inr s \<and> m < int s"
proof (induction d m tail arbitrary: k rule: fine_to_coarse.induct)
  case (3 d m A B C D rest)
  show ?case
  proof (cases k)
    case 0
    then show ?thesis using "3.prems"(1) by (auto split: sum.splits)
  next
    case (Suc k')
    then show ?thesis using "3.IH" [of k'] "3.prems" by simp
  qed
qed simp_all

lemma pyramid_loop_never_returns:
  assumes "pyramid_loop lib d m pyr sz = Some r"
  shows "d = 2 \<Longrightarrow> m \<le> 0 \<Longrightarrow> sz = 1 \<Longrightarrow> pyr \<noteq> [] \<Longrightarrow> shape (fst (last pyr)) = [a, b]
    \<Longrightarrow> shape (snd (last pyr)) = [a, b] \<Longrightarrow> 0 < a \<Longrightarrow> 0 < b \<Longrightarrow> min b a = 1 \<Longrightarrow> False"
  using assms
proof (induction lib d m pyr sz r arbitrary: a b
    rule: pyramid_loop.raw_induct [rotated 1, consumes 1])
  case (1 loop lib d m pyr sz r)
  from \<open>pyr \<noteq> []\<close> obtain P0 P1 front where pyr: "pyr = front @ [(P0, P1)]"
    by (cases pyr rule: rev_cases) auto
  have P0: "shape P0 = [a, b]" and P1: "shape P1 = [a, b]" using 1 pyr by simp_all
  from pyramid_reduce_shape [OF P0 \<open>0 < a\<close> \<open>0 < b\<close>, of lib]
  obtain J0 where J0: "pyramid_reduce lib P0 2 = Inr J0"
      "shape J0 = map (\<lambda>d. nat \<lceil>real d / 2\<rceil>) (shape P0)"
    by blast
  from pyramid_reduce_shape [OF P1 \<open>0 < a\<close> \<open>0 < b\<close>, of lib]
  obtain J1 where J1: "pyramid_reduce lib P1 2 = Inr J1"
      "shape J1 = map (\<lambda>d. nat \<lceil>real d / 2\<rceil>) (shape P1)"
    by blast
  let ?a = "(a + 1) div 2" and ?b = "(b + 1) div 2"
  have sJ0: "shape J0 = [?a, ?b]" using J0(2) P0 by (simp only: ceil_half) simp
  have sJ1: "shape J1 = [?a, ?b]" using J1(2) P1 by (simp only: ceil_half) simp
  have pos: "0 < ?a" "0 < ?b" using \<open>0 < a\<close> \<open>0 < b\<close> by simp_all
  have mn: "min ?b ?a = 1"
    using \<open>0 < a\<close> \<open>0 < b\<close> \<open>min b a = 1\<close> by (simp add: min_def split: if_splits) linarith+
  have m: "min_dim J0 = Inr 1" using sJ0 mn by (simp add: min_dim_2d)
  have "loop lib 2 m (pyr @ [(J0, J1)]) 1 = Some r"
    using "1.hyps" "1.prems"(1-3) pyr J0(1) J1(1) m by simp
  from "1.IH" [OF this _ \<open>m \<le> 0\<close>, of ?a ?b] sJ0 sJ1 pos mn show False by simp
qed

lemma get_pyramid_never_returns:
  assumes "shape I0 = [a, b]" "shape I1 = [a, b]" "0 < a" "0 < b" "min b a = 1" "m \<le> 0"
  shows "get_pyramid lib I0 I1 2 m = None"
proof (cases "get_pyramid lib I0 I1 2 m")
  case None
  then show ?thesis .
next
  case (Some r)
  then have "pyramid_loop lib 2 m [(I0, I1)] 1 = Some r"
    using assms by (simp add: get_pyramid_def min_dim_2d)
  from pyramid_loop_never_returns [OF this _ assms(6), of a b] assms show ?thesis by simp
qed

text \<open>
  C3, as amended. For two images of one two-dimensional shape, the default factor and
  every \<open>min_size \<ge> 1\<close>, \<open>get_pyramid\<close> returns a sequence whose last element is the
  input pair itself, whose first element has a minimum dimension of at most \<open>min_size\<close>,
  and whose second element, when there is one, has a minimum dimension above
  \<open>min_size\<close>.
\<close>

theorem get_pyramid_levels:
  assumes "shape I0 = shape I1" and "ndim I0 = 2" and "1 \<le> min_size"
  shows "\<exists>pyramid. get_pyramid lib I0 I1 default_downscale min_size = Some (Inr pyramid)
          \<and> pyramid \<noteq> [] \<and> last pyramid = (I0, I1)
          \<and> (\<exists>s. min_dim (fst (hd pyramid)) = Inr s \<and> int s \<le> min_size)
          \<and> (1 < length pyramid \<longrightarrow>
                (\<exists>s. min_dim (fst (pyramid ! 1)) = Inr s \<and> min_size < int s))"
proof -
  from get_pyramid_returns [OF assms] obtain tail
    where t: "get_pyramid lib I0 I1 2 min_size = Some (Inr (rev tail))"
      "hd tail = (I0, I1)" "fine_to_coarse 2 min_size tail"
    by blast
  have ne: "tail \<noteq> []" using t(3) by (rule fine_to_coarse_nonempty)
  have "last (rev tail) = (I0, I1)" using ne t(2) by (simp add: last_rev)
  moreover have "\<exists>s. min_dim (fst (hd (rev tail))) = Inr s \<and> int s \<le> min_size"
    using fine_to_coarse_last [OF t(3)] ne by (simp add: hd_rev)
  moreover have "\<exists>s. min_dim (fst (rev tail ! 1)) = Inr s \<and> min_size < int s"
    if "1 < length (rev tail)"
  proof -
    have "rev tail ! 1 = tail ! (length tail - 2)"
      using that by (simp add: rev_nth numeral_2_eq_2)
    moreover have "Suc (length tail - 2) < length tail"
      using that by simp
    ultimately show ?thesis
      using fine_to_coarse_inner [OF t(3)] by simp
  qed
  ultimately show ?thesis
    using t(1) ne by (simp add: default_downscale_def)
qed

theorem get_pyramid_levels_witness:
  "\<exists>pyramid. get_pyramid lib0 (full [40, 50] 1) (full [40, 50] 2) default_downscale 16
        = Some (Inr pyramid)
      \<and> pyramid \<noteq> [] \<and> last pyramid = (full [40, 50] 1, full [40, 50] 2)
      \<and> (\<exists>s. min_dim (fst (hd pyramid)) = Inr s \<and> int s \<le> 16)
      \<and> (\<exists>s. min_dim (fst (pyramid ! 1)) = Inr s \<and> 16 < int s)"
proof -
  from get_pyramid_levels [of "full [40, 50] 1" "full [40, 50] 2" 16 lib0]
  obtain pyramid where p: "get_pyramid lib0 (full [40, 50] 1) (full [40, 50] 2) default_downscale 16
        = Some (Inr pyramid)" "pyramid \<noteq> []" "last pyramid = (full [40, 50] 1, full [40, 50] 2)"
      "\<exists>s. min_dim (fst (hd pyramid)) = Inr s \<and> int s \<le> 16"
      "1 < length pyramid \<longrightarrow> (\<exists>s. min_dim (fst (pyramid ! 1)) = Inr s \<and> 16 < int s)"
    by (auto simp: shape_full ndim_def)
  have "length pyramid \<noteq> 1"
  proof
    assume "length pyramid = 1"
    then have "hd pyramid = last pyramid"
      by (cases pyramid) simp_all
    then show False using p(3,4) by (simp add: min_dim_2d shape_full)
  qed
  then have "1 < length pyramid" using p(2) by (cases pyramid) simp_all
  then show ?thesis using p by blast
qed

text \<open>
  C3 as stated fails for \<open>min_size = 0\<close>: an image of one pixel is reduced to an image of
  one pixel, the size stays above \<open>min_size\<close> and the loop never ends, so no sequence is
  returned.
\<close>

theorem get_pyramid_min_size_zero:
  "get_pyramid lib0 (full [1, 1] 0) (full [1, 1] 0) default_downscale 0 = None"
  unfolding default_downscale_def
  by (rule get_pyramid_never_returns [of _ 1 1]) (simp_all add: shape_full)

text \<open>
  C9, as amended. With the default factor 2 and a \<open>min_size\<close> of at least one (the
  default is 16), \<open>get_pyramid\<close> returns on every pair of images of one
  two-dimensional shape; and a reduction of a two-dimensional image whose minimum
  dimension exceeds \<open>min_size\<close> succeeds and strictly decreases that dimension.
\<close>

theorem get_pyramid_terminates:
  assumes "shape I0 = shape I1" and "ndim I0 = 2" and "1 \<le> min_size"
  shows "(\<exists>pyramid. get_pyramid lib I0 I1 default_downscale min_size = Some (Inr pyramid))
       \<and> (\<forall>J sz. ndim J = 2 \<and> min_dim J = Inr sz \<and> min_size < int sz \<longrightarrow>
             (\<exists>J' sz'. pyramid_reduce lib J default_downscale = Inr J'
                 \<and> min_dim J' = Inr sz' \<and> sz' < sz))"
proof
  show "\<exists>pyramid. get_pyramid lib I0 I1 default_downscale min_size = Some (Inr pyramid)"
    using get_pyramid_returns [OF assms, of lib] by (auto simp: default_downscale_def)
next
  show "\<forall>J sz. ndim J = 2 \<and> min_dim J = Inr sz \<and> min_size < int sz \<longrightarrow>
          (\<exists>J' sz'. pyramid_reduce lib J default_downscale = Inr J'
              \<and> min_dim J' = Inr sz' \<and> sz' < sz)"
  proof (intro allI impI)
    fix J sz assume a: "ndim J = 2 \<and> min_dim J = Inr sz \<and> min_size < int sz"
    then have "ndim J = 2" "min_dim J = Inr sz" "0 < sz" using assms(3) by simp_all
    then obtain a b where ab: "shape J = [a, b]" "0 < a" "0 < b"
      by (rule min_dim_positive)
    from pyramid_reduce_shape [OF ab, of lib]
    obtain J' where J': "pyramid_reduce lib J 2 = Inr J'"
        "shape J' = map (\<lambda>d. nat \<lceil>real d / 2\<rceil>) (shape J)"
      by blast
    have "min_dim J' = Inr ((sz + 1) div 2)"
      using a J'(2) by (intro min_dim_halved [of J]) simp_all
    moreover have "(sz + 1) div 2 < sz"
      using a assms(3) by linarith
    ultimately show "\<exists>J' sz'. pyramid_reduce lib J default_downscale = Inr J'
        \<and> min_dim J' = Inr sz' \<and> sz' < sz"
      using J'(1) by (simp add: default_downscale_def)
  qed
qed

theorem get_pyramid_terminates_witness:
  "(\<exists>pyramid. get_pyramid lib0 (full [40, 50] 1) (full [40, 50] 2) default_downscale
        default_min_size = Some (Inr pyramid))
   \<and> (\<exists>J' sz'. pyramid_reduce lib0 (full [40, 50] 1) default_downscale = Inr J'
         \<and> min_dim J' = Inr sz' \<and> sz' < 40)"
proof -
  have "min_dim (full [40, 50] 1) = Inr 40"
    by (simp add: min_dim_2d shape_full)
  then show ?thesis
    using get_pyramid_terminates [of "full [40, 50] 1" "full [40, 50] 2" default_min_size lib0]
    by (simp add: shape_full ndim_def default_min_size_def)
qed

text \<open>
  C9 as stated fails for \<open>min_size = 0\<close>: on two images of shape \<open>(1, 5)\<close> the size is
  1, above \<open>min_size\<close>; the reduction gives the shape \<open>(1, 3)\<close>, whose size is 1 again,
  so the reduction does not decrease it and \<open>get_pyramid\<close> never returns.
\<close>

theorem get_pyramid_stalls:
  "get_pyramid lib0 (full [1, 5] 0) (full [1, 5] 0) default_downscale 0 = None
   \<and> min_dim (full [1, 5] 0) = Inr 1
   \<and> pyramid_reduce lib0 (full [1, 5] 0) default_downscale = Inr (full [1, 3] 0)
   \<and> min_dim (full [1, 3] 0) = Inr 1"
proof (intro conjI)
  show "get_pyramid lib0 (full [1, 5] 0) (full [1, 5] 0) default_downscale 0 = None"
    unfolding default_downscale_def
    by (rule get_pyramid_never_returns [of _ 1 5]) (simp_all add: shape_full)
  show "min_dim (full [1, 5] 0) = Inr 1" "min_dim (full [1, 3] 0) = Inr 1"
    by (simp_all add: min_dim_2d shape_full)
  have sh: "map (\<lambda>d. nat \<lceil>real d / 2\<rceil>) (shape (full [1, 5] 0)) = [1, 3]"
    by (simp only: ceil_half shape_full list.map) simp
  have "map (\<lambda>n. 0 :: real) [0..<3] = replicate 3 0"
    by (rule map_const_upt) simp
  then show "pyramid_reduce lib0 (full [1, 5] 0) default_downscale = Inr (full [1, 3] 0)"
    unfolding pyramid_reduce_def default_downscale_def Let_def sh
    by (simp add: lib0_def full_def ndim_def)
qed

text \<open>
  C5. On two images whose shapes differ \<open>get_pyramid\<close> raises \<open>ShapeMismatch\<close> and
  returns nothing; \<open>coarse_to_fine\<close> on two such two-dimensional images ends with this
  error after the call of \<open>get_pyramid\<close> and without any call of the solver.
\<close>

theorem shape_mismatch:
  assumes "shape I0 \<noteq> shape I1"
  shows "get_pyramid lib I0 I1 downscale min_size = Some (Inl ShapeMismatch)
       \<and> (ndim I0 = 2 \<and> ndim I1 = 2 \<longrightarrow>
            coarse_to_fine lib I0 I1 solver downscale
              = Some ([Call_get_pyramid (img_as_float32 lib I0) (img_as_float32 lib I1) downscale],
                      Inl (Raised ShapeMismatch)))"
  using assms
  by (simp add: get_pyramid_def coarse_to_fine_def img_as_float32_def Let_def)

theorem shape_mismatch_witness:
  "get_pyramid lib0 (full [64, 64] 1) (full [32, 32] 1) 2 16 = Some (Inl ShapeMismatch)
   \<and> coarse_to_fine lib0 (full [64, 64] 1) (full [32, 32] 1)
        (identity_solver :: unit solver) 2
      = Some ([Call_get_pyramid (img_as_float32 lib0 (full [64, 64] 1))
                 (img_as_float32 lib0 (full [32, 32] 1)) 2],
              Inl (Raised ShapeMismatch))"
  using shape_mismatch [of "full [64, 64] 1" "full [32, 32] 1" lib0 2 16
      "identity_solver :: unit solver"]
  by (simp add: shape_full ndim_def)

section \<open>The driver\<close>

lemma pyramid_loop_error:
  assumes "pyramid_loop lib d m pyr sz = Some r"
  shows "r \<noteq> Inl DimensionalityError"
  using assms
proof (induction lib d m pyr sz r rule: pyramid_loop.raw_induct [rotated 1, consumes 1])
  case (1 loop lib d m pyr sz r)
  then show ?case
    by (auto simp: pyramid_reduce_def min_dim_def Let_def
        split: if_splits list.splits sum.splits prod.splits)
qed

lemma get_pyramid_error:
  "get_pyramid lib I0 I1 d m \<noteq> Some (Inl DimensionalityError)"
  using pyramid_loop_error [of lib d m "[(I0, I1)]"]
  by (auto simp: get_pyramid_def min_dim_def split: list.splits sum.splits)

lemma resize_error: "resize a s = Inl e \<Longrightarrow> e = Unmodelled"
  by (auto simp: resize_def split: list.splits if_splits)

lemma upscale_flow_error: "upscale_flow u v s \<noteq> Inl DimensionalityError"
  by (auto simp: upscale_flow_def Let_def dest: resize_error
      split: list.splits if_splits sum.splits)

lemma solve_levels_error:
  "snd (solve_levels solver rest u v calls) \<noteq> Inl (Raised DimensionalityError)"
proof (induction rest arbitrary: u v calls)
  case Nil
  then show ?case by simp
next
  case (Cons lvl rest)
  obtain J0 J1 where lvl: "lvl = (J0, J1)" by (cases lvl)
  show ?case
    using Cons.IH upscale_flow_error [of u v "shape J0"]
    unfolding lvl by (auto split: sum.splits prod.splits)
qed

text \<open>
  C6. When one of the two inputs is not two-dimensional, \<open>coarse_to_fine\<close> raises
  \<open>DimensionalityError\<close> before it calls \<open>get_pyramid\<close> or the solver: the list of
  calls is empty. On two two-dimensional inputs it never ends with this error.
\<close>

theorem dimensionality:
  "(ndim I0 \<noteq> 2 \<or> ndim I1 \<noteq> 2 \<longrightarrow>
      coarse_to_fine lib I0 I1 solver downscale = Some ([], Inl (Raised DimensionalityError)))
   \<and> (ndim I0 = 2 \<and> ndim I1 = 2 \<longrightarrow>
        (\<forall>calls. coarse_to_fine lib I0 I1 solver downscale
            \<noteq> Some (calls, Inl (Raised DimensionalityError))))"
proof (intro conjI impI allI)
  assume "ndim I0 \<noteq> 2 \<or> ndim I1 \<noteq> 2"
  then show "coarse_to_fine lib I0 I1 solver downscale
      = Some ([], Inl (Raised DimensionalityError))"
    by (simp add: coarse_to_fine_def)
next
  fix calls
  assume d: "ndim I0 = 2 \<and> ndim I1 = 2"
  show "coarse_to_fine lib I0 I1 solver downscale
      \<noteq> Some (calls, Inl (Raised DimensionalityError))"
  proof
    assume c: "coarse_to_fine lib I0 I1 solver downscale
        = Some (calls, Inl (Raised DimensionalityError))"
    let ?g = "get_pyramid lib (img_as_float32 lib I0) (img_as_float32 lib I1) downscale
        default_min_size"
    have g: "?g \<noteq> Some (Inl DimensionalityError)" by (rule get_pyramid_error)
    from c d g show False
      using solve_levels_error [of solver]
      by (auto simp: coarse_to_fine_def Let_def
          split: option.splits sum.splits list.splits prod.splits)
        (metis snd_conv)+
  qed
qed

theorem dimensionality_witness:
  "coarse_to_fine lib0 (full [4] 1) (full [2, 2] 1) (identity_solver :: unit solver) 2
     = Some ([], Inl (Raised DimensionalityError))
   \<and> coarse_to_fine lib0 (full [2, 2] 1) (full [2, 2] 1) (identity_solver :: unit solver) 2
     \<noteq> Some ([], Inl (Raised DimensionalityError))"
  using dimensionality [of "full [4] 1" "full [2, 2] 1" lib0 "identity_solver :: unit solver" 2]
    dimensionality [of "full [2, 2] 1" "full [2, 2] 1" lib0 "identity_solver :: unit solver" 2]
  by (simp add: ndim_def shape_full)

lemma shape_img_as_float32: "shape (img_as_float32 lib a) = shape a"
  by (simp add: img_as_float32_def)

lemma three_levels:
  assumes "fine_to_coarse 2 16 tail" "hd tail = (F, G)" "shape F = [64, 64]"
  shows "\<exists>C1 D1 C2 D2. tail = [(F, G), (C1, D1), (C2, D2)]
           \<and> shape C1 = [32, 32] \<and> shape D1 = [32, 32]
           \<and> shape C2 = [16, 16] \<and> shape D2 = [16, 16]"
proof -
  from assms(1,2) obtain t1 where t1: "tail = (F, G) # t1"
    by (cases tail) auto
  have mF: "min_dim F = Inr 64" using assms(3) by (simp add: min_dim_2d)
  from assms(1) mF obtain C1 D1 t2 where t2: "t1 = (C1, D1) # t2"
    unfolding t1 by (cases t1) auto
  have sC1: "shape C1 = [32, 32]" and f1: "fine_to_coarse 2 16 ((C1, D1) # t2)"
    using assms(1,3) unfolding t1 t2 by (simp_all add: ceil_half)
  have mC1: "min_dim C1 = Inr 32" using sC1 by (simp add: min_dim_2d)
  from f1 mC1 obtain C2 D2 t3 where t3: "t2 = (C2, D2) # t3"
    by (cases t2) auto
  have sD1: "shape D1 = [32, 32]"
    using f1 sC1 unfolding t3 by simp
  have sC2: "shape C2 = [16, 16]" and f2: "fine_to_coarse 2 16 ((C2, D2) # t3)"
    using f1 sC1 unfolding t3 by (simp_all add: ceil_half)
  have mC2: "min_dim C2 = Inr 16" using sC2 by (simp add: min_dim_2d)
  have t3e: "t3 = []"
    using f2 mC2 by (cases t3) auto
  have sD2: "shape D2 = [16, 16]"
    using f2 sC2 unfolding t3e by simp
  show ?thesis
    using t1 t2 t3 t3e sC1 sC2 sD1 sD2 by simp
qed

text \<open>
  C4. On two identical images of shape \<open>(64, 64)\<close> and with the solver that returns the
  flow it is given, the pyramid has three levels, of shapes \<open>(16, 16)\<close>, \<open>(32, 32)\<close>
  and \<open>(64, 64)\<close>; the driver calls \<open>get_pyramid\<close> and then the solver once on each
  level, from the coarsest up, each time with a zero flow of the shape of the level: the
  zero flow set up at the coarsest level is what each \<open>upscale_flow\<close> step and each
  call of the solver hand on. The flow returned has the shape \<open>(64, 64)\<close> and holds
  zeros only.
\<close>

theorem identical_images_zero_flow:
  assumes "shape I = [64, 64]"
  shows "\<exists>C1 D1 C2 D2.
      shape C2 = [16, 16] \<and> shape D2 = [16, 16] \<and> shape C1 = [32, 32] \<and> shape D1 = [32, 32]
    \<and> get_pyramid lib (img_as_float32 lib I) (img_as_float32 lib I)
          default_downscale default_min_size
        = Some (Inr [(C2, D2), (C1, D1), (img_as_float32 lib I, img_as_float32 lib I)])
    \<and> coarse_to_fine lib I I identity_solver default_downscale
        = Some ([Call_get_pyramid (img_as_float32 lib I) (img_as_float32 lib I)
                   default_downscale,
                 Call_solver C2 D2 (full [16, 16] 0) (full [16, 16] 0),
                 Call_solver C1 D1 (full [32, 32] 0) (full [32, 32] 0),
                 Call_solver (img_as_float32 lib I) (img_as_float32 lib I)
                   (full [64, 64] 0) (full [64, 64] 0)],
                Inr (full [64, 64] 0, full [64, 64] 0))
    \<and> zeros_like C2 = full [16, 16] 0
    \<and> upscale_flow (full [16, 16] 0) (full [16, 16] 0) (shape C1)
        = Inr (full [32, 32] 0, full [32, 32] 0)
    \<and> upscale_flow (full [32, 32] 0) (full [32, 32] 0) (shape (img_as_float32 lib I))
        = Inr (full [64, 64] 0, full [64, 64] 0)"
proof -
  let ?F = "img_as_float32 lib I"
  have sF: "shape ?F = [64, 64]" using assms by (simp add: shape_img_as_float32)
  then have nF: "ndim ?F = 2" by (simp add: ndim_def)
  from get_pyramid_returns [OF refl nF, of 16 lib] obtain tail
    where t: "get_pyramid lib ?F ?F 2 16 = Some (Inr (rev tail))"
      "hd tail = (?F, ?F)" "fine_to_coarse 2 16 tail"
    by auto
  from three_levels [OF t(3,2) sF] obtain C1 D1 C2 D2
    where l: "tail = [(?F, ?F), (C1, D1), (C2, D2)]"
      "shape C1 = [32, 32]" "shape D1 = [32, 32]" "shape C2 = [16, 16]" "shape D2 = [16, 16]"
    by blast
  have g: "get_pyramid lib ?F ?F default_downscale default_min_size
      = Some (Inr [(C2, D2), (C1, D1), (?F, ?F)])"
    using t(1) l(1) by (simp add: default_downscale_def default_min_size_def)
  have z: "zeros_like C2 = full [16, 16] 0"
    using l(4) by (simp add: zeros_like_def)
  have a1: "upscale_flow (full [16, 16] 0) (full [16, 16] 0) [32, 32]
      = Inr (full [32, 32] 0, full [32, 32] 0)"
    by (simp add: upscale_flow_full)
  have a2: "upscale_flow (full [32, 32] 0) (full [32, 32] 0) [64, 64]
      = Inr (full [64, 64] 0, full [64, 64] 0)"
    by (simp add: upscale_flow_full)
  have u1: "upscale_flow (full [16, 16] 0) (full [16, 16] 0) (shape C1)
      = Inr (full [32, 32] 0, full [32, 32] 0)"
    unfolding l(2) by (rule a1)
  have u2: "upscale_flow (full [32, 32] 0) (full [32, 32] 0) (shape ?F)
      = Inr (full [64, 64] 0, full [64, 64] 0)"
    unfolding sF by (rule a2)
  have c: "coarse_to_fine lib I I identity_solver default_downscale
      = Some ([Call_get_pyramid ?F ?F default_downscale,
               Call_solver C2 D2 (full [16, 16] 0) (full [16, 16] 0),
               Call_solver C1 D1 (full [32, 32] 0) (full [32, 32] 0),
               Call_solver ?F ?F (full [64, 64] 0) (full [64, 64] 0)],
              Inr (full [64, 64] 0, full [64, 64] 0))"
    using assms
    by (simp add: coarse_to_fine_def ndim_def Let_def g shape_full zeros_like_def
        identity_solver_def l(2,4) sF a1 a2)
  show ?thesis
    apply (rule exI [of _ C1])
    apply (rule exI [of _ D1])
    apply (rule exI [of _ C2])
    apply (rule exI [of _ D2])
    apply (intro conjI)
           apply (rule l(4))
          apply (rule l(5))
         apply (rule l(2))
        apply (rule l(3))
       apply (rule g)
      apply (rule c)
     apply (rule z)
    apply (rule u1)
    apply (rule u2)
    done
qed

theorem identical_images_zero_flow_witness:
  "\<exists>C1 D1 C2 D2.
      shape C2 = [16, 16] \<and> shape D2 = [16, 16] \<and> shape C1 = [32, 32] \<and> shape D1 = [32, 32]
    \<and> get_pyramid lib0 (img_as_float32 lib0 (full [64, 64] 1))
          (img_as_float32 lib0 (full [64, 64] 1)) default_downscale default_min_size
        = Some (Inr [(C2, D2), (C1, D1),
                     (img_as_float32 lib0 (full [64, 64] 1),
                      img_as_float32 lib0 (full [64, 64] 1))])
    \<and> coarse_to_fine lib0 (full [64, 64] 1) (full [64, 64] 1)
          (identity_solver :: unit solver) default_downscale
        = Some ([Call_get_pyramid (img_as_float32 lib0 (full [64, 64] 1))
                   (img_as_float32 lib0 (full [64, 64] 1)) default_downscale,
                 Call_solver C2 D2 (full [16, 16] 0) (full [16, 16] 0),
                 Call_solver C1 D1 (full [32, 32] 0) (full [32, 32] 0),
                 Call_solver (img_as_float32 lib0 (full [64, 64] 1))
                   (img_as_float32 lib0 (full [64, 64] 1))
                   (full [64, 64] 0) (full [64, 64] 0)],
                Inr (full [64, 64] 0, full [64, 64] 0))
    \<and> zeros_like C2 = full [16, 16] 0
    \<and> upscale_flow (full [16, 16] 0) (full [16, 16] 0) (shape C1)
        = Inr (full [32, 32] 0, full [32, 32] 0)
    \<and> upscale_flow (full [32, 32] 0) (full [32, 32] 0)
          (shape (img_as_float32 lib0 (full [64, 64] 1)))
        = Inr (full [64, 64] 0, full [64, 64] 0)"
  by (rule identical_images_zero_flow [of "full [64, 64] 1" lib0, OF shape_full])








end
